theory Spec2Isabelle
  imports Complex_Main "HOL-Library.Word"
begin

section \<open>JavaScript strings\<close>

text \<open>
  A JavaScript string is a sequence of UTF-16 code units. The service only ever looks at
  single code units (the regular expression has no \<open>u\<close> flag), so a string is a list of
  16-bit words. \<open>js\<close> embeds an ASCII literal.
\<close>

type_synonym code_unit = "16 word"
type_synonym jsstring = "code_unit list"

definition js :: "string \<Rightarrow> jsstring" where
  "js = map (\<lambda>c. of_nat (of_char c))"

text \<open>
  The class \<open>\s\<close> of a regular expression and the characters removed by
  \<open>String.prototype.trim\<close> are the same set: WhiteSpace and LineTerminator of ECMAScript.
\<close>

definition is_ws :: "code_unit \<Rightarrow> bool" where
  "is_ws c =
     (c \<in> set [0x09, 0x0A, 0x0B, 0x0C, 0x0D, 0x20, 0xA0, 0x1680,
               0x2028, 0x2029, 0x202F, 0x205F, 0x3000, 0xFEFF]
      \<or> (0x2000 \<le> c \<and> c \<le> 0x200A))"

text \<open>The character class \<open>[.?!]\<close>.\<close>

definition is_terminal :: "code_unit \<Rightarrow> bool" where
  "is_terminal c = (c = 0x2E \<or> c = 0x3F \<or> c = 0x21)"

definition trim :: "jsstring \<Rightarrow> jsstring" where
  "trim s = rev (dropWhile is_ws (rev (dropWhile is_ws s)))"

text \<open>
  \<open>s.substring(a, b)\<close> and \<open>s.substring(a)\<close> for \<open>0 \<le> a \<le> b\<close>; indices beyond the
  end are clamped to the length, which is what \<open>take\<close> and \<open>drop\<close> do.
\<close>

definition substring :: "jsstring \<Rightarrow> nat \<Rightarrow> nat \<Rightarrow> jsstring" where
  "substring s a b = take (b - a) (drop a s)"

definition substring_from :: "jsstring \<Rightarrow> nat \<Rightarrow> jsstring" where
  "substring_from s a = drop a s"

text \<open>\<open>s.includes(sub)\<close>: \<open>sub\<close> occurs in \<open>s\<close> as a contiguous block.\<close>

fun starts_with :: "jsstring \<Rightarrow> jsstring \<Rightarrow> bool" where
  "starts_with s [] = True"
| "starts_with [] (p # ps) = False"
| "starts_with (c # cs) (p # ps) = (c = p \<and> starts_with cs ps)"

fun includes_js :: "jsstring \<Rightarrow> jsstring \<Rightarrow> bool" where
  "includes_js [] sub = (sub = [])"
| "includes_js (c # cs) sub = (starts_with (c # cs) sub \<or> includes_js cs sub)"

text \<open>
  \<open>s.match(/([.?!])\s+/)\<close>: the leftmost position where a terminal punctuation mark is
  followed by at least one white space character; \<open>\s+\<close> is greedy and nothing follows
  it in the pattern, so the match takes the whole run of white space. The result is
  \<open>(match.index, match[0].length)\<close>; \<open>match[1]\<close> is the punctuation mark, of length 1.
  \<open>None\<close> is the \<open>null\<close> of a failed match.
\<close>

fun regex_match :: "jsstring \<Rightarrow> (nat \<times> nat) option" where
  "regex_match [] = None"
| "regex_match (c # cs) =
     (if is_terminal c \<and> takeWhile is_ws cs \<noteq> []
      then Some (0, 1 + length (takeWhile is_ws cs))
      else (case regex_match cs of
              None \<Rightarrow> None
            | Some (index, n) \<Rightarrow> Some (Suc index, n)))"

section \<open>The service\<close>

text \<open>
  The two callbacks belong to the caller. A callback is known by its identity only; calling
  it is recorded in the trace of effects, with the arguments it receives. The trace also
  records the calls to the platform that acquire and release resources, and a
  \<open>TypeError\<close> thrown inside the \<open>catch\<close> block of \<open>connect\<close>, which nothing catches:
  it leaves \<open>connect\<close> as the rejection of its promise. The callbacks are taken not to
  call back into the service while they run.
\<close>

type_synonym callback = nat

datatype effect =
    Transcription callback jsstring bool
  | ErrorReport callback jsstring
  | CreateAudioContext
  | RequestMicrophone
  | OpenChannel
  | ResumeAudioContext
  | StartCapture
  | StopTracks
  | DisconnectProcessor
  | DisconnectSource
  | CloseAudioContext
  | UncaughtTypeError

datatype audio_context_state = Suspended | Running | Closed

text \<open>
  The fields of \<open>GeminiLiveService\<close>. A field holding a platform object is \<open>True\<close> when it
  is not \<open>null\<close>; the audio context is kept with its \<open>state\<close>, which \<open>disconnect\<close> reads.
\<close>

record service =
  session :: bool
  audioContext :: "audio_context_state option"
  mediaStream :: bool
  processor :: bool
  source :: bool
  isConnected :: bool
  onTranscription :: "callback option"
  onError :: "callback option"
  currentInputText :: jsstring
  currentOutputText :: jsstring

text \<open>The object after its constructor.\<close>

definition new_service :: service where
  "new_service =
     \<lparr>session = False, audioContext = None, mediaStream = False, processor = False,
      source = False, isConnected = False, onTranscription = None, onError = None,
      currentInputText = [], currentOutputText = []\<rparr>"

subsection \<open>disconnect\<close>

text \<open>The platform objects released by \<open>disconnect\<close>, in the order of the code.\<close>

definition release :: "service \<Rightarrow> effect list" where
  "release s =
     (if mediaStream s then [StopTracks] else []) @
     (if processor s then [DisconnectProcessor] else []) @
     (if source s then [DisconnectSource] else []) @
     (case audioContext s of
        Some st \<Rightarrow> if st \<noteq> Closed then [CloseAudioContext] else []
      | None \<Rightarrow> [])"

definition disconnect :: "service \<Rightarrow> service \<times> effect list" where
  "disconnect s =
     (let flush =
            (case onTranscription s of
               Some cb \<Rightarrow>
                 if isConnected s \<and> trim (currentOutputText s) \<noteq> []
                 then [Transcription cb (trim (currentOutputText s)) True] else []
             | None \<Rightarrow> [])
      in (s\<lparr>isConnected := False, mediaStream := False, processor := False,
             source := False, audioContext := None, session := False,
             onTranscription := None, onError := None,
             currentInputText := [], currentOutputText := []\<rparr>,
          flush @ release s))"

subsection \<open>handleMessage\<close>

text \<open>
  An inbound message: the optional \<open>serverContent.inputTranscription.text\<close>, the optional
  \<open>serverContent.outputTranscription.text\<close> and \<open>serverContent.turnComplete\<close>. A text that
  is absent and a text that is the empty string are both falsy for the code.
\<close>

record message =
  inputText :: "jsstring option"
  outputText :: "jsstring option"
  turnComplete :: bool

text \<open>A match is not empty and lies inside the string.\<close>

lemma regex_match_length: "regex_match buf = Some (i, n) \<Longrightarrow> 0 < n \<and> i + n \<le> length buf"
proof (induction buf arbitrary: i)
  case Nil
  then show ?case by simp
next
  case (Cons c cs)
  show ?case
  proof (cases "is_terminal c \<and> takeWhile is_ws cs \<noteq> []")
    case True
    with Cons.prems have "i = 0" "n = 1 + length (takeWhile is_ws cs)" by auto
    then show ?thesis using length_takeWhile_le [of is_ws cs] by simp
  next
    case False
    with Cons.prems obtain j where "regex_match cs = Some (j, n)" "i = Suc j"
      by (auto split: option.splits)
    with Cons.IH [of j] show ?thesis by simp
  qed
qed

text \<open>
  The \<open>while\<close> loop over the output buffer. \<open>match.index\<close> of a successful match without
  the \<open>g\<close> flag is always defined, so the \<open>break\<close> branch is never taken.
\<close>

function scan_loop :: "callback \<Rightarrow> jsstring \<Rightarrow> effect list \<Rightarrow> jsstring \<times> effect list" where
  "scan_loop cb buf out =
     (case regex_match buf of
        None \<Rightarrow> (buf, out)
      | Some (index, totalMatchLength) \<Rightarrow>
          (let punctuationIndex = index + 1;
               completeSentence = trim (substring buf 0 punctuationIndex);
               remainder = substring_from buf (index + totalMatchLength)
           in scan_loop cb remainder
                (if completeSentence \<noteq> []
                 then out @ [Transcription cb completeSentence True] else out)))"
  by pat_completeness auto

termination
proof (relation "measure (\<lambda>(cb, buf, out). length buf)")
  show "wf (measure (\<lambda>(cb, buf, out). length buf))" by simp
next
  fix cb :: callback and buf :: jsstring and out :: "effect list"
    and x2 :: "nat \<times> nat" and index totalMatchLength punctuationIndex :: nat
    and completeSentence remainder :: jsstring
  assume "regex_match buf = Some x2" "(index, totalMatchLength) = x2"
    and "remainder = substring_from buf (index + totalMatchLength)"
  then have "regex_match buf = Some (index, totalMatchLength)" by simp
  from regex_match_length [OF this]
  have "0 < index + totalMatchLength" "index + totalMatchLength \<le> length buf" by simp_all
  then have "length buf - (index + totalMatchLength) < length buf" by arith
  with \<open>remainder = substring_from buf (index + totalMatchLength)\<close>
  have "length remainder < length buf" by (simp add: substring_from_def)
  then show "((cb, remainder,
               if completeSentence \<noteq> [] then out @ [Transcription cb completeSentence True]
               else out), cb, buf, out) \<in> measure (\<lambda>(cb, buf, out). length buf)"
    by simp
qed

declare scan_loop.simps [simp del]

text \<open>The four blocks of \<open>handleMessage\<close> after its guard, in the order of the code.\<close>

definition apply_input :: "service \<Rightarrow> message \<Rightarrow> service" where
  "apply_input s message =
     (case inputText message of
        Some text \<Rightarrow>
          if text \<noteq> [] then s\<lparr>currentInputText := currentInputText s @ text\<rparr> else s
      | None \<Rightarrow> s)"

definition apply_output :: "callback \<Rightarrow> service \<Rightarrow> message \<Rightarrow> service \<times> effect list" where
  "apply_output cb s message =
     (case outputText message of
        Some text \<Rightarrow>
          if text \<noteq> []
          then (let (buf, out) = scan_loop cb (currentOutputText s @ text) []
                in (s\<lparr>currentOutputText := buf, currentInputText := []\<rparr>, out))
          else (s, [])
      | None \<Rightarrow> (s, []))"

definition apply_turn_complete :: "callback \<Rightarrow> service \<Rightarrow> message \<Rightarrow> service \<times> effect list" where
  "apply_turn_complete cb s message =
     (if turnComplete message
      then (if trim (currentOutputText s) \<noteq> []
            then (s\<lparr>currentInputText := [], currentOutputText := []\<rparr>,
                  [Transcription cb (trim (currentOutputText s)) True])
            else (s\<lparr>currentInputText := []\<rparr>, []))
      else (s, []))"

definition live_preview :: "callback \<Rightarrow> service \<Rightarrow> effect list" where
  "live_preview cb s =
     (if trim (currentOutputText s) \<noteq> [] then [Transcription cb (currentOutputText s) False]
      else if trim (currentInputText s) \<noteq> [] then [Transcription cb (currentInputText s) False]
      else [])"

definition handleMessage :: "service \<Rightarrow> message \<Rightarrow> service \<times> effect list" where
  "handleMessage s message =
     (case onTranscription s of
        None \<Rightarrow> (s, [])
      | Some cb \<Rightarrow>
          (let s1 = apply_input s message;
               (s2, sentences) = apply_output cb s1 message;
               (s3, flush) = apply_turn_complete cb s2 message
           in (s3, sentences @ flush @ live_preview cb s3)))"

subsection \<open>Transport callbacks\<close>

definition handleRuntimeError :: "service \<Rightarrow> jsstring \<Rightarrow> service \<times> effect list" where
  "handleRuntimeError s msg =
     (if isConnected s
      then (let report = (case onError s of Some cb \<Rightarrow> [ErrorReport cb msg] | None \<Rightarrow> []);
                (s', out) = disconnect s
            in (s', report @ out))
      else (s, []))"

text \<open>
  \<open>startAudioStreaming\<close>, with the wait for \<open>audioContext.resume()\<close> taken as one step.
\<close>

definition startAudioStreaming :: "service \<Rightarrow> service \<times> effect list" where
  "startAudioStreaming s =
     (case audioContext s of
        None \<Rightarrow> (s, [])
      | Some st \<Rightarrow>
          if \<not> mediaStream s then (s, [])
          else (s\<lparr>audioContext := Some (if st = Suspended then Running else st),
                   source := True, processor := True\<rparr>,
                (if st = Suspended then [ResumeAudioContext] else []) @ [StartCapture]))"

definition onopen :: "service \<Rightarrow> service \<times> effect list" where
  "onopen s = startAudioStreaming (s\<lparr>isConnected := True\<rparr>)"

definition interrupted_message :: jsstring where
  "interrupted_message =
     js ''The connection was interrupted. Please check your network or API key status.''"

definition closed_message :: jsstring where
  "closed_message = js ''Connection closed unexpectedly.''"

definition onerror :: "service \<Rightarrow> service \<times> effect list" where
  "onerror s = (if isConnected s then handleRuntimeError s interrupted_message else (s, []))"

definition onclose :: "service \<Rightarrow> nat \<Rightarrow> service \<times> effect list" where
  "onclose s code =
     (let wasConnected = isConnected s;
          s1 = s\<lparr>isConnected := False\<rparr>
      in if wasConnected \<and> code \<noteq> 1000 then handleRuntimeError s1 closed_message
         else (s1, []))"

subsection \<open>connect\<close>

definition network_error :: jsstring where
  "network_error = js ''Network error: Unable to establish connection.''"

definition api_key_not_found :: jsstring where
  "api_key_not_found =
     js ''API Key Error: Requested model or project not found. You likely need a paid billing account and a valid API key.''"

definition api_key_denied :: jsstring where
  "api_key_denied =
     js ''API Key Error: Access denied. Ensure your API key has the correct permissions for the Live API.''"

text \<open>
  What the \<open>catch\<close> block of \<open>connect\<close> catches (\<open>err\<close> has the type \<open>any\<close>), as
  far as the block looks at it: \<open>null\<close> or \<open>undefined\<close>; a value whose \<open>message\<close> is
  absent or falsy without being a string; a value whose \<open>message\<close> is the given string;
  a value whose \<open>message\<close> is truthy, is not a string and has no method \<open>includes\<close>
  (a message with a method of that name of its own is left out). Every \<open>Error\<close> is of the
  second or the third kind: \<open>error_with\<close>.
\<close>

datatype caught = Nullish | NoMessage | StringMessage jsstring | OtherMessage

definition error_with :: "jsstring option \<Rightarrow> caught" where
  "error_with err_message =
     (case err_message of None \<Rightarrow> NoMessage | Some m \<Rightarrow> StringMessage m)"

text \<open>
  The value of \<open>errorMessage\<close> at the end of the \<open>catch\<close> block, once \<open>err.message\<close>
  has been read: \<open>None\<close> when it is absent or falsy and not a string, otherwise the string.
\<close>

definition errorMessage :: "jsstring option \<Rightarrow> jsstring" where
  "errorMessage err_message =
     (case err_message of
        None \<Rightarrow> network_error
      | Some m \<Rightarrow>
          if m \<noteq> [] \<and> (includes_js m (js ''404'') \<or> includes_js m (js ''not found''))
          then api_key_not_found
          else if m \<noteq> [] \<and> (includes_js m (js ''403'') \<or> includes_js m (js ''permission''))
          then api_key_denied
          else if m \<noteq> [] then m
          else network_error)"

text \<open>The end of the \<open>catch\<close> block: the report to the error callback, then \<open>disconnect\<close>.\<close>

definition report_and_disconnect :: "service \<Rightarrow> jsstring option \<Rightarrow> service \<times> effect list" where
  "report_and_disconnect s err_message =
     (let report = (case onError s of
                      Some cb \<Rightarrow> [ErrorReport cb (errorMessage err_message)]
                    | None \<Rightarrow> []);
          (s', out) = disconnect s
      in (s', report @ out))"

text \<open>
  The \<open>catch\<close> block of \<open>connect\<close>. Reading \<open>err.message\<close> of \<open>null\<close> or \<open>undefined\<close>,
  and calling \<open>includes\<close> on a message that has no such method, throw a \<open>TypeError\<close>
  in the first condition of the block: nothing is reported, \<open>disconnect\<close> is not called,
  the fields stay as they are.
\<close>

definition connect_catch :: "service \<Rightarrow> caught \<Rightarrow> service \<times> effect list" where
  "connect_catch s err =
     (case err of
        Nullish \<Rightarrow> (s, [UncaughtTypeError])
      | NoMessage \<Rightarrow> report_and_disconnect s None
      | StringMessage m \<Rightarrow> report_and_disconnect s (Some m)
      | OtherMessage \<Rightarrow> (s, [UncaughtTypeError]))"

text \<open>
  What the platform does during one call of \<open>connect\<close>: the state of the new audio
  context, and how the \<open>try\<close> block goes on. It runs to its end; or one of its calls
  throws or rejects, with the value caught; or it is still waiting at one of its two
  \<open>await\<close>s when other handlers of the service run, and its continuation reaches the
  service later, as an event.
\<close>

datatype stage = NewClient | NewAudioContext | GetUserMedia | LiveConnect

datatype await_point = AtGetUserMedia | AtLiveConnect

datatype setup_result = Established | Throws stage caught | Awaits await_point

record platform =
  contextState :: audio_context_state
  result :: setup_result

text \<open>Effects that come before those of what follows.\<close>

definition following :: "effect list \<Rightarrow> service \<times> effect list \<Rightarrow> service \<times> effect list" where
  "following before r = (fst r, before @ snd r)"

text \<open>
  \<open>connect\<close>, up to the end of its \<open>try\<close> block or of its \<open>catch\<close> block when no other
  handler of the service runs in between, and up to the \<open>await\<close> otherwise.
\<close>

definition connect :: "service \<Rightarrow> callback \<Rightarrow> callback \<Rightarrow> platform \<Rightarrow> service \<times> effect list" where
  "connect s onT onE env =
     (if isConnected s then (s, [])
      else
        (let s0 = s\<lparr>onTranscription := Some onT, onError := Some onE,
                      currentInputText := [], currentOutputText := []\<rparr>;
             s1 = s0\<lparr>audioContext := Some (contextState env)\<rparr>;
             s2 = s1\<lparr>mediaStream := True\<rparr>
         in case result env of
              Throws NewClient err \<Rightarrow> connect_catch s0 err
            | Throws NewAudioContext err \<Rightarrow> connect_catch s0 err
            | Throws GetUserMedia err \<Rightarrow>
                following [CreateAudioContext, RequestMicrophone] (connect_catch s1 err)
            | Throws LiveConnect err \<Rightarrow>
                following [CreateAudioContext, RequestMicrophone, OpenChannel]
                  (connect_catch s2 err)
            | Awaits AtGetUserMedia \<Rightarrow> (s1, [CreateAudioContext, RequestMicrophone])
            | Awaits AtLiveConnect \<Rightarrow>
                (s2, [CreateAudioContext, RequestMicrophone, OpenChannel])
            | Established \<Rightarrow>
                (s2\<lparr>session := True\<rparr>,
                 [CreateAudioContext, RequestMicrophone, OpenChannel])))"

subsection \<open>Runs of the service\<close>

text \<open>
  What reaches the service from the transport and from its own pending work: the four
  callbacks given to the channel, and the continuations of a \<open>connect\<close> that was waiting
  when something else ran (the microphone request resolving, the channel promise resolving,
  either of them rejecting). The capture callback of the audio processor is left out: it
  reads \<open>isConnected\<close> and sends a frame, writes no field and calls no callback.
\<close>

datatype event =
    Open
  | Message message
  | SocketError
  | SocketClose nat
  | MediaStreamResolved
  | SessionResolved
  | SetupRejected caught

fun deliver :: "service \<Rightarrow> event \<Rightarrow> service \<times> effect list" where
  "deliver s Open = onopen s"
| "deliver s (Message m) = handleMessage s m"
| "deliver s SocketError = onerror s"
| "deliver s (SocketClose code) = onclose s code"
| "deliver s MediaStreamResolved = (s\<lparr>mediaStream := True\<rparr>, [OpenChannel])"
| "deliver s SessionResolved = (s\<lparr>session := True\<rparr>, [])"
| "deliver s (SetupRejected err) = connect_catch s err"

datatype action = Connect callback callback platform | Disconnect | Deliver event

fun step :: "service \<Rightarrow> action \<Rightarrow> service \<times> effect list" where
  "step s (Connect onT onE env) = connect s onT onE env"
| "step s Disconnect = disconnect s"
| "step s (Deliver ev) = deliver s ev"

fun run :: "service \<Rightarrow> action list \<Rightarrow> service \<times> effect list" where
  "run s [] = (s, [])"
| "run s (a # as) =
     (let (s1, out1) = step s a; (s2, out2) = run s1 as in (s2, out1 @ out2))"




primrec finals :: "effect list \<Rightarrow> jsstring list" where
  "finals [] = []"
| "finals (e # es) =
     (case e of Transcription cb t f \<Rightarrow> if f then [t] else [] | _ \<Rightarrow> []) @ finals es"

primrec previews :: "effect list \<Rightarrow> jsstring list" where
  "previews [] = []"
| "previews (e # es) =
     (case e of Transcription cb t f \<Rightarrow> if f then [] else [t] | _ \<Rightarrow> []) @ previews es"

section \<open>The audio encoder\<close>

text \<open>
  A JavaScript Number: not-a-number, the two infinities, or a finite value. An element of
  a \<open>Float32Array\<close> read as a Number has at most 24 significant bits, so its product with
  \<open>0x8000\<close> or \<open>0x7fff\<close> has at most 39 and is exact in binary64: on the samples the
  arithmetic of the code is that of the reals. The sign of a zero is not kept, the
  conversion to an integer loses it.
\<close>

datatype number = NaN | NegInfinity | Finite real | PosInfinity

fun less_number :: "number \<Rightarrow> number \<Rightarrow> bool" where
  "less_number NaN y = False"
| "less_number x NaN = False"
| "less_number (Finite a) (Finite b) = (a < b)"
| "less_number NegInfinity NegInfinity = False"
| "less_number NegInfinity y = True"
| "less_number x NegInfinity = False"
| "less_number PosInfinity y = False"
| "less_number x PosInfinity = True"

definition math_min :: "number \<Rightarrow> number \<Rightarrow> number" where
  "math_min x y = (if x = NaN \<or> y = NaN then NaN else if less_number y x then y else x)"

definition math_max :: "number \<Rightarrow> number \<Rightarrow> number" where
  "math_max x y = (if x = NaN \<or> y = NaN then NaN else if less_number x y then y else x)"

text \<open>The product of a Number with a positive finite constant.\<close>

fun times_const :: "number \<Rightarrow> real \<Rightarrow> number" where
  "times_const (Finite a) k = Finite (a * k)"
| "times_const x k = x"

definition trunc_toward_zero :: "real \<Rightarrow> int" where
  "trunc_toward_zero r = (if r < 0 then \<lceil>r\<rceil> else \<lfloor>r\<rfloor>)"

text \<open>
  Storing a Number in an \<open>Int16Array\<close>: not-a-number and the infinities become 0, a finite
  value is truncated towards zero and kept modulo \<open>2 ^ 16\<close>. The element is read back
  as a signed integer with \<open>sint\<close>.
\<close>

fun to_int16 :: "number \<Rightarrow> 16 word" where
  "to_int16 (Finite r) = word_of_int (trunc_toward_zero r)"
| "to_int16 x = 0"

definition quantize :: "number \<Rightarrow> 16 word" where
  "quantize x =
     (let s = math_max (Finite (- 1)) (math_min (Finite 1) x)
      in to_int16 (if less_number s (Finite 0) then times_const s 0x8000
                   else times_const s 0x7fff))"

definition float32ToInt16 :: "number list \<Rightarrow> 16 word list" where
  "float32ToInt16 float32Array = map quantize float32Array"

section \<open>Sentence boundaries in the words of the specification\<close>

text \<open>
  A sentence boundary is a terminal punctuation mark followed by white space; the scan takes
  the first one, emits the trimmed text up to and including the punctuation mark, goes on
  with what follows the white space, and stops when no boundary is left. \<open>segments_spec\<close>
  gives the sentences in order and the text that remains.
\<close>

definition boundary_at :: "jsstring \<Rightarrow> nat \<Rightarrow> bool" where
  "boundary_at s i = (Suc i < length s \<and> is_terminal (s ! i) \<and> is_ws (s ! Suc i))"

definition first_boundary :: "jsstring \<Rightarrow> nat option" where
  "first_boundary s = List.find (boundary_at s) [0..<length s]"

lemma first_boundary_less: "first_boundary s = Some i \<Longrightarrow> i < length s"
  by (auto simp: first_boundary_def find_Some_iff)

function segments_spec :: "jsstring \<Rightarrow> jsstring list \<times> jsstring" where
  "segments_spec s =
     (case first_boundary s of
        None \<Rightarrow> ([], s)
      | Some i \<Rightarrow>
          (let (segs, rest) = segments_spec (dropWhile is_ws (drop (Suc i) s))
           in (trim (take (Suc i) s) # segs, rest)))"
  by pat_completeness auto

termination
proof (relation "measure length")
  show "wf (measure length)" by simp
next
  fix s :: jsstring and i :: nat
  assume "first_boundary s = Some i"
  then have "i < length s" by (rule first_boundary_less)
  moreover have "length (dropWhile is_ws (drop (Suc i) s)) \<le> length (drop (Suc i) s)"
    by (rule length_dropWhile_le)
  ultimately show "(dropWhile is_ws (drop (Suc i) s), s) \<in> measure length" by simp
qed

declare segments_spec.simps [simp del]

text \<open>
  The quantization in the words of the specification: the sample is clamped to \<open>[-1, 1]\<close>,
  a negative value is scaled by 32768 and a non-negative one by 32767.
\<close>

definition scaled_spec :: "real \<Rightarrow> real" where
  "scaled_spec s =
     (let c = max (- 1) (min 1 s) in if c < 0 then c * 32768 else c * 32767)"


section \<open>Predicates on states and traces\<close>


text \<open>Text is buffered only while a segment callback is registered.\<close>

definition buffers_owned :: "service \<Rightarrow> bool" where
  "buffers_owned s = (onTranscription s = None \<longrightarrow> currentOutputText s = [])"

text \<open>No final segment of the trace is empty or blank.\<close>

definition nonblank_finals :: "effect list \<Rightarrow> bool" where
  "nonblank_finals es = (\<forall>t \<in> set (finals es). trim t \<noteq> [])"


section \<open>Sample messages and a listening session\<close>

text \<open>
  Messages carrying one thing only, and the service after a \<open>connect\<close> that succeeded and
  the opening of its channel, with the callbacks 1 (segments) and 2 (errors).
\<close>

definition output_delta :: "jsstring \<Rightarrow> message" where
  "output_delta text = \<lparr>inputText = None, outputText = Some text, turnComplete = False\<rparr>"

definition input_delta :: "jsstring \<Rightarrow> message" where
  "input_delta text = \<lparr>inputText = Some text, outputText = None, turnComplete = False\<rparr>"

definition turn_complete_marker :: message where
  "turn_complete_marker = \<lparr>inputText = None, outputText = None, turnComplete = True\<rparr>"

definition listening :: service where
  "listening =
     fst (run new_service
            [Connect 1 2 \<lparr>contextState = Running, result = Established\<rparr>, Deliver Open])"

section \<open>Properties of trimming and of the scan\<close>

lemma trim_Nil [simp]: "trim [] = []"
  by (simp add: trim_def)

lemma all_dropWhile: "(\<forall>x \<in> set (dropWhile P xs). P x) \<longleftrightarrow> (\<forall>x \<in> set xs. P x)"
  by (induction xs) auto

lemma trim_Nil_iff: "trim s = [] \<longleftrightarrow> (\<forall>c \<in> set s. is_ws c)"
  by (simp add: trim_def all_dropWhile)

lemma terminal_not_ws: "is_terminal c \<Longrightarrow> \<not> is_ws c"
  by (auto simp: is_terminal_def is_ws_def)

lemma last_dropWhile: "dropWhile P xs \<noteq> [] \<Longrightarrow> last (dropWhile P xs) = last xs"
  by (induction xs) (auto split: if_splits)

lemma trim_hd_last: "trim s \<noteq> [] \<Longrightarrow> \<not> is_ws (hd (trim s)) \<and> \<not> is_ws (last (trim s))"
proof -
  assume ne: "trim s \<noteq> []"
  let ?u = "dropWhile is_ws s"
  let ?w = "dropWhile is_ws (rev ?u)"
  from ne have w: "?w \<noteq> []" by (simp add: trim_def)
  then have u: "?u \<noteq> []" by (cases "?u") auto
  have "\<not> is_ws (hd ?w)" using w hd_dropWhile by blast
  moreover have "last (trim s) = hd ?w" using w by (simp add: trim_def last_rev)
  moreover have "hd (trim s) = last ?w" using w by (simp add: trim_def hd_rev)
  moreover have "last ?w = last (rev ?u)" using w by (rule last_dropWhile)
  moreover have "last (rev ?u) = hd ?u" using u by (simp add: last_rev)
  moreover have "\<not> is_ws (hd ?u)" using u hd_dropWhile by blast
  ultimately show ?thesis by simp
qed

lemma dropWhile_hd_id: "xs = [] \<or> \<not> P (hd xs) \<Longrightarrow> dropWhile P xs = xs"
  by (cases xs) auto

lemma trim_idem: "trim (trim s) = trim s"
proof (cases "trim s = []")
  case True
  then have "\<forall>c \<in> set (trim s). is_ws c" by simp
  then have "trim (trim s) = []" by (simp only: trim_Nil_iff)
  with True show ?thesis by simp
next
  case False
  from trim_hd_last [OF False] have h: "\<not> is_ws (hd (trim s))" and l: "\<not> is_ws (last (trim s))" by simp_all
  have 1: "dropWhile is_ws (trim s) = trim s" using h by (intro dropWhile_hd_id) simp
  have "hd (rev (trim s)) = last (trim s)" using False by (simp add: hd_rev)
  then have 2: "dropWhile is_ws (rev (trim s)) = rev (trim s)" using l by (intro dropWhile_hd_id) simp
  show ?thesis unfolding trim_def [of "trim s"] 1 2 by simp
qed

lemma find_map_comp: "List.find P (map f xs) = map_option f (List.find (P \<circ> f) xs)"
  by (induction xs) auto

lemma boundary_at_Cons_Suc: "boundary_at (c # cs) (Suc i) = boundary_at cs i"
  by (simp add: boundary_at_def)

lemma boundary_at_Cons_0: "boundary_at (c # cs) 0 \<longleftrightarrow> is_terminal c \<and> takeWhile is_ws cs \<noteq> []"
  by (cases cs) (auto simp: boundary_at_def)

lemma first_boundary_Cons:
  "first_boundary (c # cs) =
     (if is_terminal c \<and> takeWhile is_ws cs \<noteq> [] then Some 0
      else map_option Suc (first_boundary cs))"
proof -
  have "[0..<length (c # cs)] = 0 # map Suc [0..<length cs]"
    by (simp add: upt_conv_Cons map_Suc_upt del: upt_Suc)
  moreover have "boundary_at (c # cs) \<circ> Suc = boundary_at cs"
    by (rule ext) (simp add: boundary_at_Cons_Suc)
  ultimately show ?thesis
    by (simp add: first_boundary_def find_map_comp boundary_at_Cons_0)
qed

lemma regex_match_first_boundary:
  "regex_match s =
     map_option (\<lambda>i. (i, 1 + length (takeWhile is_ws (drop (Suc i) s)))) (first_boundary s)"
proof (induction s)
  case Nil
  show ?case by (simp add: first_boundary_def)
next
  case (Cons c cs)
  show ?case
    by (cases "first_boundary cs") (simp_all add: Cons.IH first_boundary_Cons)
qed

lemma scan_loop_segments:
  "scan_loop cb s out =
     (snd (segments_spec s), out @ map (\<lambda>t. Transcription cb t True) (fst (segments_spec s)))"
proof (induction cb s out rule: scan_loop.induct)
  case (1 cb buf out)
  show ?case
  proof (cases "first_boundary buf")
    case None
    then show ?thesis
      by (simp add: scan_loop.simps [of cb buf] segments_spec.simps [of buf] regex_match_first_boundary)
  next
    case (Some i)
    let ?n = "1 + length (takeWhile is_ws (drop (Suc i) buf))"
    let ?rest = "dropWhile is_ws (drop (Suc i) buf)"
    have rm: "regex_match buf = Some (i, ?n)" by (simp add: regex_match_first_boundary Some)
    have rest: "substring_from buf (i + ?n) = ?rest"
      by (simp add: substring_from_def dropWhile_eq_drop add.commute)
    have b: "boundary_at buf i" using Some by (auto simp: first_boundary_def find_Some_iff)
    then have "buf ! i \<in> set (take (Suc i) buf)" "\<not> is_ws (buf ! i)"
      by (auto simp: boundary_at_def terminal_not_ws in_set_conv_nth intro!: exI [of _ i])
    then have ne: "trim (take (Suc i) buf) \<noteq> []" by (auto simp: trim_Nil_iff)
    have sub: "substring buf 0 (i + 1) = take (Suc i) buf" by (simp add: substring_def)
    have "scan_loop cb buf out = scan_loop cb ?rest (out @ [Transcription cb (trim (take (Suc i) buf)) True])"
      using ne by (simp add: scan_loop.simps [of cb buf] rm rest sub del: One_nat_def)
    also have "\<dots> = (snd (segments_spec ?rest), (out @ [Transcription cb (trim (take (Suc i) buf)) True]) @ map (\<lambda>t. Transcription cb t True) (fst (segments_spec ?rest)))"
      using "1.IH" [OF rm refl refl refl refl] ne rest sub by (simp del: One_nat_def)
    finally show ?thesis
      by (simp add: segments_spec.simps [of buf] Some split: prod.splits)
  qed
qed

section \<open>Properties of the message handler\<close>

lemma finals_append: "finals (xs @ ys) = finals xs @ finals ys"
  by (induction xs) simp_all

lemma previews_append: "previews (xs @ ys) = previews xs @ previews ys"
  by (induction xs) simp_all

lemma finals_sentences: "finals (map (\<lambda>t. Transcription cb t True) ts) = ts"
  by (induction ts) simp_all

lemma previews_sentences: "previews (map (\<lambda>t. Transcription cb t True) ts) = []"
  by (induction ts) simp_all

lemma apply_output_segments:
  assumes "outputText m = Some d" and "d \<noteq> []"
  shows "apply_output cb s m =
           (s\<lparr>currentOutputText := snd (segments_spec (currentOutputText s @ d)),
              currentInputText := []\<rparr>,
            map (\<lambda>t. Transcription cb t True) (fst (segments_spec (currentOutputText s @ d))))"
  using assms by (simp add: apply_output_def scan_loop_segments)

lemma handleMessage_output:
  assumes "onTranscription s = Some cb" and "outputText m = Some d" and "d \<noteq> []"
  shows "handleMessage s m =
     (let segs = fst (segments_spec (currentOutputText s @ d));
          rest = snd (segments_spec (currentOutputText s @ d))
      in (s\<lparr>currentInputText := [],
             currentOutputText := (if turnComplete m \<and> trim rest \<noteq> [] then [] else rest)\<rparr>,
          map (\<lambda>t. Transcription cb t True) segs @
          (if turnComplete m
           then (if trim rest \<noteq> [] then [Transcription cb (trim rest) True] else [])
           else (if trim rest \<noteq> [] then [Transcription cb rest False] else []))))"
proof -
  have "apply_input s m = s\<lparr>currentInputText := currentInputText (apply_input s m)\<rparr>"
    by (simp add: apply_input_def split: option.splits)
  then obtain i where ai: "apply_input s m = s\<lparr>currentInputText := i\<rparr>" by metis
  show ?thesis
    using assms
    by (simp add: handleMessage_def ai apply_output_segments [OF assms(2,3)]
         apply_turn_complete_def live_preview_def Let_def)
qed

lemma listening_eq:
  "listening =
     \<lparr>session = True, audioContext = Some Running, mediaStream = True, processor = True,
      source = True, isConnected = True, onTranscription = Some 1, onError = Some 2,
      currentInputText = [], currentOutputText = []\<rparr>"
  by (simp add: listening_def new_service_def connect_def onopen_def startAudioStreaming_def)

lemmas eval_defs = handleMessage_def apply_input_def apply_output_def apply_turn_complete_def
  live_preview_def scan_loop.simps js_def is_ws_def is_terminal_def trim_def substring_def
  substring_from_def output_delta_def input_delta_def turn_complete_marker_def

lemma previews_apply_output: "previews (snd (apply_output cb s m)) = []"
  by (cases "outputText m")
     (simp_all add: apply_output_def scan_loop_segments previews_sentences)

section \<open>Properties of the quantization\<close>

lemma sint_int16: "- 32768 \<le> k \<Longrightarrow> k \<le> 32767 \<Longrightarrow> sint (word_of_int k :: 16 word) = k"
  by (simp add: sint_sbintrunc' signed_take_bit_int_eq_self)

lemma scaled_spec_bounds: "- 32768 \<le> scaled_spec r \<and> scaled_spec r \<le> 32767"
  by (auto simp: scaled_spec_def Let_def min_def max_def)

lemma trunc_toward_zero_bounds:
  assumes "- 32768 \<le> p" and "p \<le> 32767"
  shows "- 32768 \<le> trunc_toward_zero p \<and> trunc_toward_zero p \<le> 32767"
proof (cases "p < 0")
  case True
  have "\<lceil>p\<rceil> \<le> 0" using True by (simp add: ceiling_le_iff)
  moreover have "- 32768 \<le> \<lceil>p\<rceil>" using assms(1) by (simp add: le_ceiling_iff)
  ultimately show ?thesis using True by (simp add: trunc_toward_zero_def)
next
  case False
  have "\<lfloor>p\<rfloor> \<le> 32767" using assms(2) by (simp add: floor_le_iff)
  moreover have "0 \<le> \<lfloor>p\<rfloor>" using False by simp
  ultimately show ?thesis using False by (simp add: trunc_toward_zero_def)
qed

lemma quantize_Finite: "quantize (Finite r) = word_of_int (trunc_toward_zero (scaled_spec r))"
  by (auto simp: quantize_def math_min_def math_max_def scaled_spec_def Let_def min_def max_def)

lemma sint_quantize_Finite: "sint (quantize (Finite r)) = trunc_toward_zero (scaled_spec r)"
  using trunc_toward_zero_bounds [OF scaled_spec_bounds [THEN conjunct1] scaled_spec_bounds [THEN conjunct2], of r]
  by (simp add: quantize_Finite sint_int16)

lemma quantize_others:
  "quantize NaN = 0" "sint (quantize PosInfinity) = 32767" "sint (quantize NegInfinity) = - 32768"
  by (simp_all add: quantize_def math_min_def math_max_def trunc_toward_zero_def)

section \<open>Properties of runs\<close>

lemmas run_defs = connect_def connect_catch_def report_and_disconnect_def following_def
  error_with_def disconnect_def release_def onopen_def
  startAudioStreaming_def onerror_def onclose_def handleRuntimeError_def new_service_def
  errorMessage_def network_error_def api_key_not_found_def api_key_denied_def
  interrupted_message_def closed_message_def



lemma finals_release: "finals (release s) = []"
  by (simp add: release_def finals_append split: option.splits)

lemma fst_disconnect: "fst (disconnect s) = new_service"
  by (simp add: disconnect_def new_service_def)

lemma disconnect_new_service: "disconnect new_service = (new_service, [])"
  by (simp add: disconnect_def release_def new_service_def)

lemma run_Cons_fst: "fst (run s (a # as)) = fst (run (fst (step s a)) as)"
  by (simp split: prod.splits)

lemma run_Cons_snd: "snd (run s (a # as)) = snd (step s a) @ snd (run (fst (step s a)) as)"
  by (simp split: prod.splits)









lemma buffers_owned_step: "buffers_owned s \<Longrightarrow> buffers_owned (fst (step s a))"
proof (cases a)
  case (Connect onT onE env)
  assume "buffers_owned s"
  then show ?thesis using Connect
    by (auto simp: connect_def connect_catch_def report_and_disconnect_def following_def
             disconnect_def buffers_owned_def Let_def
             split: option.splits setup_result.splits stage.splits await_point.splits
               caught.splits prod.splits)
next
  case Disconnect
  then show ?thesis by (simp add: disconnect_def buffers_owned_def)
next
  case (Deliver ev)
  assume b: "buffers_owned s"
  show ?thesis
  proof (cases ev)
    case Open
    with b Deliver show ?thesis
      by (auto simp: onopen_def startAudioStreaming_def buffers_owned_def split: option.splits)
  next
    case (Message m)
    with b Deliver show ?thesis
      by (auto simp: handleMessage_def apply_input_def apply_output_def apply_turn_complete_def
            buffers_owned_def Let_def split: option.splits prod.splits)
  next
    case SocketError
    with b Deliver show ?thesis
      by (auto simp: onerror_def handleRuntimeError_def disconnect_def buffers_owned_def Let_def)
  next
    case (SocketClose code)
    with b Deliver show ?thesis
      by (auto simp: onclose_def handleRuntimeError_def disconnect_def buffers_owned_def Let_def)
  next
    case MediaStreamResolved
    with b Deliver show ?thesis by (simp add: buffers_owned_def)
  next
    case SessionResolved
    with b Deliver show ?thesis by (simp add: buffers_owned_def)
  next
    case (SetupRejected err)
    with b Deliver show ?thesis
      by (cases err)
         (simp_all add: connect_catch_def report_and_disconnect_def disconnect_def
            buffers_owned_def Let_def)
  qed
qed

lemma buffers_owned_run: "buffers_owned s \<Longrightarrow> buffers_owned (fst (run s as))"
proof (induction as arbitrary: s)
  case Nil
  then show ?case by simp
next
  case (Cons a as)
  from Cons.IH [OF buffers_owned_step [OF Cons.prems, of a]]
  show ?case by (simp only: run_Cons_fst)
qed

lemma buffers_owned_reachable: "buffers_owned (fst (run new_service as))"
  by (rule buffers_owned_run) (simp add: buffers_owned_def new_service_def)

lemma disconnect_flush:
  assumes "isConnected s" and "onTranscription s = Some cb" and "trim (currentOutputText s) \<noteq> []"
  shows "disconnect s = (new_service, Transcription cb (trim (currentOutputText s)) True # release s)"
  using assms fst_disconnect [of s] by (simp add: disconnect_def prod_eq_iff)








lemma nonblank_finals_append:
  "nonblank_finals (xs @ ys) \<longleftrightarrow> nonblank_finals xs \<and> nonblank_finals ys"
  by (auto simp: nonblank_finals_def finals_append)

lemma nonblank_finals_Nil: "nonblank_finals []"
  by (simp add: nonblank_finals_def)

lemma nonblank_finals_release: "nonblank_finals (release s)"
  by (simp add: nonblank_finals_def finals_release)

lemma nonblank_finals_trimmed:
  "trim x \<noteq> [] \<Longrightarrow> nonblank_finals [Transcription cb (trim x) True]"
  by (simp add: nonblank_finals_def trim_idem)

lemma nonblank_finals_other:
  "nonblank_finals [ErrorReport cb m]" "nonblank_finals [Transcription cb t False]"
  "nonblank_finals [OpenChannel]" "nonblank_finals [StartCapture]"
  "nonblank_finals [ResumeAudioContext]" "nonblank_finals [CreateAudioContext]"
  "nonblank_finals [RequestMicrophone]" "nonblank_finals [UncaughtTypeError]"
  by (simp_all add: nonblank_finals_def)

lemma nonblank_finals_disconnect: "nonblank_finals (snd (disconnect s))"
  by (simp add: disconnect_def nonblank_finals_append nonblank_finals_release
        nonblank_finals_trimmed nonblank_finals_Nil split: option.splits)

lemma nonblank_segments: "t \<in> set (fst (segments_spec s)) \<Longrightarrow> trim t \<noteq> []"
proof (induction s rule: segments_spec.induct)
  case (1 s)
  show ?case
  proof (cases "first_boundary s")
    case None
    with "1.prems" show ?thesis by (simp add: segments_spec.simps [of s])
  next
    case (Some i)
    then have b: "boundary_at s i" by (auto simp: first_boundary_def find_Some_iff)
    then have "s ! i \<in> set (take (Suc i) s)" "\<not> is_ws (s ! i)"
      by (auto simp: boundary_at_def terminal_not_ws in_set_conv_nth intro!: exI [of _ i])
    then have "trim (take (Suc i) s) \<noteq> []" by (auto simp: trim_Nil_iff)
    then have h: "trim (trim (take (Suc i) s)) \<noteq> []" by (simp add: trim_idem)
    from "1.prems" Some
    have "t = trim (take (Suc i) s) \<or> t \<in> set (fst (segments_spec (dropWhile is_ws (drop (Suc i) s))))"
      by (auto simp: segments_spec.simps [of s] split: prod.splits)
    with h "1.IH" [OF Some] show ?thesis by auto
  qed
qed

lemma nonblank_finals_apply_output: "nonblank_finals (snd (apply_output cb s m))"
  by (cases "outputText m")
     (auto simp: apply_output_def scan_loop_segments nonblank_finals_def finals_sentences
        nonblank_segments)

lemma nonblank_finals_handleMessage: "nonblank_finals (snd (handleMessage s m))"
proof (cases "onTranscription s")
  case None
  then show ?thesis by (simp add: handleMessage_def nonblank_finals_Nil)
next
  case (Some cb)
  obtain s2 sentences where ao: "apply_output cb (apply_input s m) m = (s2, sentences)"
    by (cases "apply_output cb (apply_input s m) m")
  have "nonblank_finals sentences"
    using nonblank_finals_apply_output [of cb "apply_input s m" m] ao by simp
  then show ?thesis
    by (simp add: handleMessage_def Some ao apply_turn_complete_def live_preview_def
          nonblank_finals_append nonblank_finals_trimmed nonblank_finals_other
          nonblank_finals_Nil)
qed

lemma nonblank_finals_handleRuntimeError: "nonblank_finals (snd (handleRuntimeError s msg))"
  using nonblank_finals_disconnect [of s]
  by (cases "disconnect s")
     (simp add: handleRuntimeError_def nonblank_finals_append nonblank_finals_other
        nonblank_finals_Nil split: option.splits)

lemma nonblank_finals_report_and_disconnect:
  "nonblank_finals (snd (report_and_disconnect s m))"
  using nonblank_finals_disconnect [of s]
  by (cases "disconnect s")
     (simp add: report_and_disconnect_def nonblank_finals_append nonblank_finals_other
        nonblank_finals_Nil split: option.splits)

lemma nonblank_finals_connect_catch: "nonblank_finals (snd (connect_catch s err))"
  by (cases err)
     (simp_all add: connect_catch_def nonblank_finals_report_and_disconnect
        nonblank_finals_other)

lemma nonblank_finals_deliver: "nonblank_finals (snd (deliver s ev))"
proof (cases ev)
  case Open
  then show ?thesis
    by (simp add: onopen_def startAudioStreaming_def nonblank_finals_def split: option.splits)
next
  case (Message m)
  then show ?thesis by (simp add: nonblank_finals_handleMessage)
next
  case SocketError
  then show ?thesis by (simp add: onerror_def nonblank_finals_handleRuntimeError nonblank_finals_Nil)
next
  case (SocketClose code)
  then show ?thesis
    by (simp add: onclose_def Let_def nonblank_finals_handleRuntimeError nonblank_finals_Nil)
next
  case MediaStreamResolved
  then show ?thesis by (simp add: nonblank_finals_other)
next
  case SessionResolved
  then show ?thesis by (simp add: nonblank_finals_Nil)
next
  case (SetupRejected err)
  then show ?thesis by (simp add: nonblank_finals_connect_catch)
qed

lemma nonblank_finals_following:
  "nonblank_finals before \<Longrightarrow> nonblank_finals (snd r) \<Longrightarrow>
   nonblank_finals (snd (following before r))"
  by (simp add: following_def nonblank_finals_append)

lemma nonblank_finals_connect: "nonblank_finals (snd (connect s onT onE env))"
proof (cases "isConnected s")
  case True
  then show ?thesis by (simp add: connect_def nonblank_finals_Nil)
next
  case False
  have pre: "nonblank_finals [CreateAudioContext, RequestMicrophone]"
    "nonblank_finals [CreateAudioContext, RequestMicrophone, OpenChannel]"
    by (simp_all add: nonblank_finals_def)
  show ?thesis
  proof (cases "result env")
    case Established
    with False pre show ?thesis by (simp add: connect_def)
  next
    case (Throws stg err)
    with False pre show ?thesis
      by (cases stg)
         (simp_all add: connect_def Let_def nonblank_finals_connect_catch
            nonblank_finals_following)
  next
    case (Awaits a)
    with False pre show ?thesis by (cases a) (simp_all add: connect_def)
  qed
qed

lemma nonblank_finals_step: "nonblank_finals (snd (step s a))"
  by (cases a)
     (simp_all add: nonblank_finals_connect nonblank_finals_disconnect nonblank_finals_deliver)

lemma nonblank_finals_run: "nonblank_finals (snd (run s as))"
proof (induction as arbitrary: s)
  case Nil
  show ?case by (simp add: nonblank_finals_Nil)
next
  case (Cons a as)
  show ?case
    by (simp only: run_Cons_snd nonblank_finals_append nonblank_finals_step Cons.IH simp_thms)
qed

lemmas spec_eval = segments_spec.simps first_boundary_def boundary_at_def js_def is_ws_def
  is_terminal_def trim_def upt_rec

section \<open>The claims\<close>

text \<open>
  C1. A message with output-translation text, handled while a segment callback is
  registered (otherwise the handler returns at once): the text is appended to the output buffer and
  the buffer is scanned again and again for the first terminal punctuation mark followed by
  white space; each boundary gives one final segment, the trimmed text up to and including
  the punctuation mark, and the buffer keeps what follows the white space
  (\<open>segments_spec\<close>). The input buffer is emptied; what remains is flushed when the message
  also completes the turn, and is the preview otherwise, when it is not blank. Fed in one
  message to an empty buffer, \<open>Hello world. How are you? \<close> gives the two final segments
  \<open>Hello world.\<close> and \<open>How are you?\<close> in this order, an empty buffer and no preview.
\<close>

theorem sentence_scan:
  assumes "onTranscription s = Some cb"
  shows "(\<forall>m d. outputText m = Some d \<and> d \<noteq> [] \<longrightarrow>
            handleMessage s m =
              (let segs = fst (segments_spec (currentOutputText s @ d));
                   rest = snd (segments_spec (currentOutputText s @ d))
               in (s\<lparr>currentInputText := [],
                      currentOutputText :=
                        (if turnComplete m \<and> trim rest \<noteq> [] then [] else rest)\<rparr>,
                   map (\<lambda>t. Transcription cb t True) segs @
                   (if turnComplete m
                    then (if trim rest \<noteq> [] then [Transcription cb (trim rest) True] else [])
                    else (if trim rest \<noteq> [] then [Transcription cb rest False] else [])))))
         \<and> (currentOutputText s = [] \<longrightarrow>
              handleMessage s (output_delta (js ''Hello world. How are you? '')) =
                (s\<lparr>currentInputText := [], currentOutputText := []\<rparr>,
                 [Transcription cb (js ''Hello world.'') True,
                  Transcription cb (js ''How are you?'') True]))"
proof (intro conjI allI impI)
  fix m :: message and d :: jsstring
  assume "outputText m = Some d \<and> d \<noteq> []"
  then show "handleMessage s m =
              (let segs = fst (segments_spec (currentOutputText s @ d));
                   rest = snd (segments_spec (currentOutputText s @ d))
               in (s\<lparr>currentInputText := [],
                      currentOutputText :=
                        (if turnComplete m \<and> trim rest \<noteq> [] then [] else rest)\<rparr>,
                   map (\<lambda>t. Transcription cb t True) segs @
                   (if turnComplete m
                    then (if trim rest \<noteq> [] then [Transcription cb (trim rest) True] else [])
                    else (if trim rest \<noteq> [] then [Transcription cb rest False] else []))))"
    using handleMessage_output [OF assms, of m d] by simp
next
  assume "currentOutputText s = []"
  with assms show "handleMessage s (output_delta (js ''Hello world. How are you? '')) =
                (s\<lparr>currentInputText := [], currentOutputText := []\<rparr>,
                 [Transcription cb (js ''Hello world.'') True,
                  Transcription cb (js ''How are you?'') True])"
    by (simp add: eval_defs)
qed

theorem sentence_scan_witness:
  "onTranscription listening = Some 1 \<and> currentOutputText listening = [] \<and>
   outputText (output_delta (js ''Hello world. How are you? ''))
     = Some (js ''Hello world. How are you? '') \<and>
   js ''Hello world. How are you? '' \<noteq> [] \<and>
   segments_spec (js ''Hello world. How are you? '')
     = ([js ''Hello world.'', js ''How are you?''], []) \<and>
   handleMessage listening (output_delta (js ''Hello world. How are you? '')) =
     (listening, [Transcription 1 (js ''Hello world.'') True,
                  Transcription 1 (js ''How are you?'') True]) \<and>
   finals (snd (handleMessage listening (output_delta (js ''Hello world. How are you? '')))) =
     [js ''Hello world.'', js ''How are you?''] \<and>
   previews (snd (handleMessage listening (output_delta (js ''Hello world. How are you? '')))) = []"
proof -
  let ?d = "js ''Hello world. How are you? ''"
  have cb: "onTranscription listening = Some 1" and buf: "currentOutputText listening = []"
    by (simp_all add: listening_eq)
  have m: "outputText (output_delta ?d) = Some ?d \<and> ?d \<noteq> []"
    by (simp add: output_delta_def js_def)
  have seg: "segments_spec ?d = ([js ''Hello world.'', js ''How are you?''], [])"
    by (simp add: spec_eval)
  have tc: "\<not> turnComplete (output_delta ?d)" by (simp add: output_delta_def)
  have l: "listening\<lparr>currentInputText := [], currentOutputText := []\<rparr> = listening"
    by (simp add: listening_eq)
  from sentence_scan [OF cb, THEN conjunct1, THEN spec, THEN spec, THEN mp, OF m]
  have general: "handleMessage listening (output_delta ?d) =
     (listening, [Transcription 1 (js ''Hello world.'') True,
                  Transcription 1 (js ''How are you?'') True])"
    by (simp add: buf seg tc l)
  from sentence_scan [OF cb, THEN conjunct2, THEN mp, OF buf]
  have example: "handleMessage listening (output_delta ?d) =
          (listening\<lparr>currentInputText := [], currentOutputText := []\<rparr>,
           [Transcription 1 (js ''Hello world.'') True, Transcription 1 (js ''How are you?'') True])" .
  have f: "finals (snd (handleMessage listening (output_delta ?d))) =
             [js ''Hello world.'', js ''How are you?'']"
    and p: "previews (snd (handleMessage listening (output_delta ?d))) = []"
    by (simp_all add: example)
  from cb buf m seg general f p show ?thesis by (intro conjI) simp_all
qed

text \<open>
  C2, as the specification states it, fails: after \<open>Hello wor\<close> and then \<open>ld.\<close> the full
  stop is the last character of the buffer, no white space follows it, and no final
  segment is emitted.
\<close>

theorem partial_sentence_counterexample:
  "finals (snd (handleMessage
                  (fst (handleMessage listening (output_delta (js ''Hello wor''))))
                  (output_delta (js ''ld.''))))
   \<noteq> [js ''Hello world.'']"
  by (simp add: listening_eq eval_defs)

text \<open>
  C2, amended. After \<open>Hello wor\<close>: no final segment, preview \<open>Hello wor\<close>. After \<open>ld.\<close>:
  still no final segment, preview \<open>Hello world.\<close>. The segment \<open>Hello world.\<close> is emitted
  when white space follows the full stop, here with a third message holding one space.
\<close>

theorem partial_sentence:
  assumes "onTranscription s = Some cb" and "currentOutputText s = []"
  shows "(let (s1, out1) = handleMessage s (output_delta (js ''Hello wor''));
              (s2, out2) = handleMessage s1 (output_delta (js ''ld.''));
              (s3, out3) = handleMessage s2 (output_delta (js '' ''))
          in finals out1 = [] \<and> previews out1 = [js ''Hello wor''] \<and>
             finals out2 = [] \<and> previews out2 = [js ''Hello world.''] \<and>
             finals out3 = [js ''Hello world.''] \<and> previews out3 = [])"
  using assms by (simp add: eval_defs)

theorem partial_sentence_witness:
  "onTranscription listening = Some 1 \<and> currentOutputText listening = [] \<and>
   (let (s1, out1) = handleMessage listening (output_delta (js ''Hello wor''));
        (s2, out2) = handleMessage s1 (output_delta (js ''ld.''));
        (s3, out3) = handleMessage s2 (output_delta (js '' ''))
    in finals out1 = [] \<and> previews out1 = [js ''Hello wor''] \<and>
       finals out2 = [] \<and> previews out2 = [js ''Hello world.''] \<and>
       finals out3 = [js ''Hello world.''] \<and> previews out3 = [])"
proof -
  have cb: "onTranscription listening = Some 1" and buf: "currentOutputText listening = []"
    by (simp_all add: listening_eq)
  from partial_sentence [OF cb buf] cb buf show ?thesis by blast
qed

text \<open>
  C3, as the specification states it, fails: an output buffer that holds white space only is
  not empty, yet a turn-complete message flushes nothing from it and does not empty it.
  Such a buffer is reached with a message whose output text is one space.
\<close>

theorem turn_complete_counterexample:
  "currentOutputText (fst (handleMessage listening (output_delta (js '' '')))) = js '' '' \<and>
   finals (snd (handleMessage (fst (handleMessage listening (output_delta (js '' ''))))
                  turn_complete_marker)) = [] \<and>
   currentOutputText (fst (handleMessage (fst (handleMessage listening (output_delta (js '' ''))))
                  turn_complete_marker)) \<noteq> []"
  by (simp add: listening_eq eval_defs)

text \<open>
  C3, amended. While a segment callback is registered:
  a message that completes the turn, seen from the state \<open>s2\<close> the service is
  in after the texts of the message are applied: when the output buffer is not blank, what it
  holds is flushed, trimmed, as one final segment after the sentences of the message itself,
  and both buffers are left empty; when it is blank nothing is flushed. In both cases the
  input buffer is left empty and no preview is emitted. \<open>unfinished fragment\<close> followed
  by a turn-complete message gives the one final segment \<open>unfinished fragment\<close>, no
  preview, and empty buffers.
\<close>

theorem turn_complete_flush:
  assumes "onTranscription s = Some cb" and "turnComplete m"
  shows "(let (s2, sentences) = apply_output cb (apply_input s m) m;
              (s', out) = handleMessage s m
          in currentInputText s' = [] \<and> previews out = [] \<and>
             (trim (currentOutputText s2) \<noteq> [] \<longrightarrow>
                out = sentences @ [Transcription cb (trim (currentOutputText s2)) True] \<and>
                currentOutputText s' = []) \<and>
             (trim (currentOutputText s2) = [] \<longrightarrow> out = sentences))
         \<and> (currentOutputText s = [] \<longrightarrow>
              (let (s1, out1) = handleMessage s (output_delta (js ''unfinished fragment''));
                   (s2, out2) = handleMessage s1 turn_complete_marker
               in finals out1 = [] \<and>
                  out2 = [Transcription cb (js ''unfinished fragment'') True] \<and>
                  currentInputText s2 = [] \<and> currentOutputText s2 = []))"
proof (rule conjI)
  obtain s2 sentences where ao: "apply_output cb (apply_input s m) m = (s2, sentences)"
    by (cases "apply_output cb (apply_input s m) m")
  have pv: "previews sentences = []" using previews_apply_output [of cb "apply_input s m" m] ao by simp
  show "let (s2, sentences) = apply_output cb (apply_input s m) m;
              (s', out) = handleMessage s m
          in currentInputText s' = [] \<and> previews out = [] \<and>
             (trim (currentOutputText s2) \<noteq> [] \<longrightarrow>
                out = sentences @ [Transcription cb (trim (currentOutputText s2)) True] \<and>
                currentOutputText s' = []) \<and>
             (trim (currentOutputText s2) = [] \<longrightarrow> out = sentences)"
    using assms pv
    by (simp add: handleMessage_def ao apply_turn_complete_def live_preview_def previews_append)
next
  show "currentOutputText s = [] \<longrightarrow>
              (let (s1, out1) = handleMessage s (output_delta (js ''unfinished fragment''));
                   (s2, out2) = handleMessage s1 turn_complete_marker
               in finals out1 = [] \<and>
                  out2 = [Transcription cb (js ''unfinished fragment'') True] \<and>
                  currentInputText s2 = [] \<and> currentOutputText s2 = [])"
    using assms(1) by (simp add: eval_defs)
qed

theorem turn_complete_flush_witness:
  "onTranscription listening = Some 1 \<and> turnComplete turn_complete_marker \<and>
   currentOutputText listening = [] \<and>
   (let (s1, out1) = handleMessage listening (output_delta (js ''unfinished fragment''));
        (s2, out2) = handleMessage s1 turn_complete_marker
    in finals out1 = [] \<and>
       out2 = [Transcription 1 (js ''unfinished fragment'') True] \<and>
       currentInputText s2 = [] \<and> currentOutputText s2 = []) \<and>
   onTranscription (listening\<lparr>currentOutputText := js ''so ''\<rparr>) = Some 1 \<and>
   trim (js ''so '') \<noteq> [] \<and>
   snd (handleMessage (listening\<lparr>currentOutputText := js ''so ''\<rparr>) turn_complete_marker) =
     [Transcription 1 (js ''so'') True] \<and>
   currentOutputText
     (fst (handleMessage (listening\<lparr>currentOutputText := js ''so ''\<rparr>) turn_complete_marker)) = [] \<and>
   onTranscription (listening\<lparr>currentOutputText := js '' ''\<rparr>) = Some 1 \<and>
   trim (js '' '') = [] \<and>
   snd (handleMessage (listening\<lparr>currentOutputText := js '' ''\<rparr>) turn_complete_marker) = []"
proof -
  have cb: "onTranscription listening = Some 1" and buf: "currentOutputText listening = []"
    and tc: "turnComplete turn_complete_marker"
    by (simp_all add: listening_eq turn_complete_marker_def)
  let ?a = "listening\<lparr>currentOutputText := js ''so ''\<rparr>"
  let ?b = "listening\<lparr>currentOutputText := js '' ''\<rparr>"
  have cba: "onTranscription ?a = Some 1" and cbb: "onTranscription ?b = Some 1"
    by (simp_all add: listening_eq)
  have ta: "trim (js ''so '') \<noteq> []" and tb: "trim (js '' '') = []"
    and tav: "trim (js ''so '') = js ''so''" and son: "js ''so'' \<noteq> []"
    by (simp_all add: trim_def js_def is_ws_def)
  have aoa: "apply_output cb (apply_input ?a turn_complete_marker) turn_complete_marker = (?a, [])"
    and aob: "apply_output cb (apply_input ?b turn_complete_marker) turn_complete_marker = (?b, [])"
    for cb
    by (simp_all add: apply_output_def apply_input_def turn_complete_marker_def)
  obtain sa outa where ha: "handleMessage ?a turn_complete_marker = (sa, outa)"
    by (cases "handleMessage ?a turn_complete_marker")
  obtain sb outb where hb: "handleMessage ?b turn_complete_marker = (sb, outb)"
    by (cases "handleMessage ?b turn_complete_marker")
  from turn_complete_flush [OF cba tc, THEN conjunct1]
  have "outa = [Transcription 1 (js ''so'') True] \<and> currentOutputText sa = []"
    by (simp add: aoa ha tav son)
  then have ra: "snd (handleMessage ?a turn_complete_marker) = [Transcription 1 (js ''so'') True]"
    and rs: "currentOutputText (fst (handleMessage ?a turn_complete_marker)) = []"
    by (simp_all add: ha)
  from turn_complete_flush [OF cbb tc, THEN conjunct1]
  have rb: "snd (handleMessage ?b turn_complete_marker) = []"
    by (simp add: aob hb tb)
  from turn_complete_flush [OF cb tc, THEN conjunct2, THEN mp, OF buf]
  have ex: "let (s1, out1) = handleMessage listening (output_delta (js ''unfinished fragment''));
        (s2, out2) = handleMessage s1 turn_complete_marker
    in finals out1 = [] \<and>
       out2 = [Transcription 1 (js ''unfinished fragment'') True] \<and>
       currentInputText s2 = [] \<and> currentOutputText s2 = []" .
  from cb tc buf ex cba ta ra rs cbb tb rb show ?thesis by (intro conjI)
qed

text \<open>
  C4. While a segment callback is registered, a message with output-translation text
  leaves the input buffer empty, whatever it held
  and whatever else the message carries, and a preview of that cycle is the output buffer,
  never the input text: there is one when the output buffer is not blank, and none
  otherwise. With the input text \<open>ich bi\<close> and then the output text \<open>I am\<close>, the
  input buffer ends empty and the preview is \<open>I am\<close>.
\<close>

theorem output_preempts_input:
  assumes "onTranscription s = Some cb"
  shows "(\<forall>m d. outputText m = Some d \<and> d \<noteq> [] \<longrightarrow>
            (let (s', out) = handleMessage s m
             in currentInputText s' = [] \<and>
                previews out =
                  (if trim (currentOutputText s') \<noteq> [] then [currentOutputText s'] else [])))
         \<and> (currentInputText s = [] \<and> currentOutputText s = [] \<longrightarrow>
              (let (s1, out1) = handleMessage s (input_delta (js ''ich bi''));
                   (s2, out2) = handleMessage s1 (output_delta (js ''I am''))
               in currentInputText s1 = js ''ich bi'' \<and> previews out1 = [js ''ich bi''] \<and>
                  currentInputText s2 = [] \<and> previews out2 = [js ''I am'']))"
proof (intro conjI allI impI)
  fix m :: message and d :: jsstring
  assume "outputText m = Some d \<and> d \<noteq> []"
  then have d: "outputText m = Some d" "d \<noteq> []" by simp_all
  show "let (s', out) = handleMessage s m
        in currentInputText s' = [] \<and>
           previews out =
             (if trim (currentOutputText s') \<noteq> [] then [currentOutputText s'] else [])"
    by (simp add: handleMessage_output [OF assms d] Let_def previews_append previews_sentences)
next
  assume "currentInputText s = [] \<and> currentOutputText s = []"
  with assms show "let (s1, out1) = handleMessage s (input_delta (js ''ich bi''));
                   (s2, out2) = handleMessage s1 (output_delta (js ''I am''))
               in currentInputText s1 = js ''ich bi'' \<and> previews out1 = [js ''ich bi''] \<and>
                  currentInputText s2 = [] \<and> previews out2 = [js ''I am'']"
    by (simp add: eval_defs)
qed

theorem output_preempts_input_witness:
  "onTranscription listening = Some 1 \<and>
   currentInputText listening = [] \<and> currentOutputText listening = [] \<and>
   (let (s1, out1) = handleMessage listening (input_delta (js ''ich bi''));
        (s2, out2) = handleMessage s1 (output_delta (js ''I am''))
    in currentInputText s1 = js ''ich bi'' \<and> previews out1 = [js ''ich bi''] \<and>
       currentInputText s2 = [] \<and> previews out2 = [js ''I am'']) \<and>
   outputText (output_delta (js ''Hi. '')) = Some (js ''Hi. '') \<and> js ''Hi. '' \<noteq> [] \<and>
   currentInputText (fst (handleMessage (listening\<lparr>currentInputText := js ''sali''\<rparr>)
                            (output_delta (js ''Hi. '')))) = [] \<and>
   previews (snd (handleMessage (listening\<lparr>currentInputText := js ''sali''\<rparr>)
                    (output_delta (js ''Hi. '')))) = []"
proof -
  have cb: "onTranscription listening = Some 1"
    and buf: "currentInputText listening = [] \<and> currentOutputText listening = []"
    by (simp_all add: listening_eq)
  let ?a = "listening\<lparr>currentInputText := js ''sali''\<rparr>"
  let ?m = "output_delta (js ''Hi. '')"
  have cba: "onTranscription ?a = Some 1" by (simp add: listening_eq)
  have m: "outputText ?m = Some (js ''Hi. '') \<and> js ''Hi. '' \<noteq> []"
    by (simp add: output_delta_def js_def)
  obtain sa outa where ha: "handleMessage ?a ?m = (sa, outa)" by (cases "handleMessage ?a ?m")
  have "currentOutputText (fst (handleMessage ?a ?m)) = []"
    by (simp add: listening_eq eval_defs)
  then have oa: "currentOutputText sa = []" by (simp add: ha)
  from output_preempts_input [OF cba, THEN conjunct1, THEN spec, THEN spec, THEN mp, OF m]
  have "currentInputText sa = [] \<and> previews outa = []"
    by (simp add: ha oa)
  then have ga: "currentInputText (fst (handleMessage ?a ?m)) = []"
    and gb: "previews (snd (handleMessage ?a ?m)) = []"
    by (simp_all add: ha)
  from output_preempts_input [OF cb, THEN conjunct2, THEN mp, OF buf]
  have ex: "let (s1, out1) = handleMessage listening (input_delta (js ''ich bi''));
        (s2, out2) = handleMessage s1 (output_delta (js ''I am''))
    in currentInputText s1 = js ''ich bi'' \<and> previews out1 = [js ''ich bi''] \<and>
       currentInputText s2 = [] \<and> previews out2 = [js ''I am'']" .
  from cb buf ex m ga gb show ?thesis by (intro conjI) simp_all
qed

text \<open>
  C5. \<open>float32ToInt16\<close> keeps the length; every element of the result, read as a signed
  integer, lies in \<open>[-32768, 32767]\<close> and is the clamped sample scaled by 32768 when
  negative and by 32767 otherwise, truncated towards zero, with no wrap-around; the
  infinities saturate like every sample outside \<open>[-1, 1]\<close>, not-a-number gives 0.
  The samples 0, 1 and -1 give 0, 32767 and -32768.
\<close>

theorem float32ToInt16_quantization:
  "length (float32ToInt16 xs) = length xs \<and>
   (\<forall>i<length xs.
      - 32768 \<le> sint (float32ToInt16 xs ! i) \<and> sint (float32ToInt16 xs ! i) \<le> 32767 \<and>
      sint (float32ToInt16 xs ! i) =
        (case xs ! i of
           Finite s \<Rightarrow> trunc_toward_zero (scaled_spec s)
         | PosInfinity \<Rightarrow> 32767
         | NegInfinity \<Rightarrow> - 32768
         | NaN \<Rightarrow> 0)) \<and>
   (\<forall>s. 1 \<le> s \<longrightarrow> sint (quantize (Finite s)) = 32767) \<and>
   (\<forall>s. s \<le> - 1 \<longrightarrow> sint (quantize (Finite s)) = - 32768) \<and>
   map sint (float32ToInt16 [Finite 0, Finite 1, Finite (- 1)]) = [0, 32767, - 32768]"
proof (intro conjI allI impI)
  show "length (float32ToInt16 xs) = length xs" by (simp add: float32ToInt16_def)
next
  fix i assume i: "i < length xs"
  have v: "sint (quantize x) =
        (case x of Finite s \<Rightarrow> trunc_toward_zero (scaled_spec s) | PosInfinity \<Rightarrow> 32767
         | NegInfinity \<Rightarrow> - 32768 | NaN \<Rightarrow> 0)" for x
    by (cases x) (simp_all add: sint_quantize_Finite quantize_others)
  have r: "- 32768 \<le> sint (quantize x) \<and> sint (quantize x) \<le> 32767" for x
    using trunc_toward_zero_bounds [OF scaled_spec_bounds [THEN conjunct1] scaled_spec_bounds [THEN conjunct2]]
    by (cases x) (simp_all add: sint_quantize_Finite quantize_others)
  from i r show "- 32768 \<le> sint (float32ToInt16 xs ! i)" by (simp add: float32ToInt16_def)
  from i r show "sint (float32ToInt16 xs ! i) \<le> 32767" by (simp add: float32ToInt16_def)
  from i v show "sint (float32ToInt16 xs ! i) =
        (case xs ! i of Finite s \<Rightarrow> trunc_toward_zero (scaled_spec s) | PosInfinity \<Rightarrow> 32767
         | NegInfinity \<Rightarrow> - 32768 | NaN \<Rightarrow> 0)" by (simp add: float32ToInt16_def)
next
  fix s :: real assume "1 \<le> s"
  then show "sint (quantize (Finite s)) = 32767"
    by (simp add: sint_quantize_Finite scaled_spec_def trunc_toward_zero_def min_def max_def)
next
  fix s :: real assume "s \<le> - 1"
  then show "sint (quantize (Finite s)) = - 32768"
    by (simp add: sint_quantize_Finite scaled_spec_def trunc_toward_zero_def min_def max_def)
next
  show "map sint (float32ToInt16 [Finite 0, Finite 1, Finite (- 1)]) = [0, 32767, - 32768]"
    by (simp add: float32ToInt16_def sint_quantize_Finite scaled_spec_def trunc_toward_zero_def)
qed

theorem float32ToInt16_quantization_witness:
  "(2::nat) < length [Finite (1 / 2), Finite (- (3 / 10)), Finite 7, NaN] \<and>
   sint (float32ToInt16 [Finite (1 / 2), Finite (- (3 / 10)), Finite 7, NaN] ! 2) = 32767 \<and>
   map sint (float32ToInt16 [Finite (1 / 2), Finite (- (3 / 10)), Finite 7, NaN])
     = [16383, - 9830, 32767, 0] \<and>
   (1::real) \<le> 7 \<and> sint (quantize (Finite 7)) = 32767 \<and>
   (- 3::real) \<le> - 1 \<and> sint (quantize (Finite (- 3))) = - 32768"
proof -
  let ?xs = "[Finite (1 / 2), Finite (- (3 / 10)), Finite 7, NaN]"
  have l: "(2::nat) < length ?xs" by simp
  note q = float32ToInt16_quantization [of ?xs]
  from q have "\<forall>i<length ?xs.
          sint (float32ToInt16 ?xs ! i) =
        (case ?xs ! i of
           Finite s \<Rightarrow> trunc_toward_zero (scaled_spec s)
         | PosInfinity \<Rightarrow> 32767
         | NegInfinity \<Rightarrow> - 32768
         | NaN \<Rightarrow> 0)" by simp
  then have "sint (float32ToInt16 ?xs ! 2) =
        (case ?xs ! 2 of
           Finite s \<Rightarrow> trunc_toward_zero (scaled_spec s)
         | PosInfinity \<Rightarrow> 32767
         | NegInfinity \<Rightarrow> - 32768
         | NaN \<Rightarrow> 0)" using l by blast
  then have a: "sint (float32ToInt16 ?xs ! 2) = 32767"
    by (simp add: scaled_spec_def trunc_toward_zero_def)
  have b: "map sint (float32ToInt16 ?xs) = [16383, - 9830, 32767, 0]"
    by (simp add: float32ToInt16_def sint_quantize_Finite quantize_others scaled_spec_def
          trunc_toward_zero_def)
  have h1: "(1::real) \<le> 7" and h2: "(- 3::real) \<le> - 1" by simp_all
  from q have "\<forall>s. 1 \<le> s \<longrightarrow> sint (quantize (Finite s)) = 32767"
    by (elim conjE)
  with h1 have c: "sint (quantize (Finite 7)) = 32767" by blast
  from q have "\<forall>s. s \<le> - 1 \<longrightarrow> sint (quantize (Finite s)) = - 32768"
    by (elim conjE)
  with h2 have d: "sint (quantize (Finite (- 3))) = - 32768" by blast
  from l a b h1 c h2 d show ?thesis by (intro conjI)
qed

text \<open>
  C6. In every state the service reaches from its construction, when it is connected and
  its output buffer is not blank, \<open>disconnect\<close> first emits the trimmed buffer as one
  final segment, to the registered callback, then releases the resources, and ends in the
  state of a new service; this is the only final segment of the call. With
  \<open>trailing thought\<close> in the buffer of a listening session the trace is that one final
  segment followed by the four releases.
\<close>

theorem shutdown_flush:
  "(isConnected (fst (run new_service as)) \<and>
    trim (currentOutputText (fst (run new_service as))) \<noteq> [] \<longrightarrow>
      (\<exists>cb. onTranscription (fst (run new_service as)) = Some cb \<and>
            disconnect (fst (run new_service as)) =
              (new_service,
               Transcription cb (trim (currentOutputText (fst (run new_service as)))) True #
               release (fst (run new_service as)))) \<and>
      finals (snd (disconnect (fst (run new_service as)))) =
        [trim (currentOutputText (fst (run new_service as)))])
   \<and> snd (disconnect (fst (handleMessage listening (output_delta (js ''trailing thought''))))) =
       [Transcription 1 (js ''trailing thought'') True,
        StopTracks, DisconnectProcessor, DisconnectSource, CloseAudioContext]"
proof (intro conjI impI)
  let ?s = "fst (run new_service as)"
  assume a: "isConnected ?s \<and> trim (currentOutputText ?s) \<noteq> []"
  then have "currentOutputText ?s \<noteq> []" by auto
  with buffers_owned_reachable [of as] obtain cb where cb: "onTranscription ?s = Some cb"
    by (auto simp: buffers_owned_def)
  from a have d: "disconnect ?s = (new_service, Transcription cb (trim (currentOutputText ?s)) True # release ?s)"
    by (intro disconnect_flush cb) simp_all
  with cb show "\<exists>cb. onTranscription ?s = Some cb \<and>
            disconnect ?s = (new_service, Transcription cb (trim (currentOutputText ?s)) True # release ?s)"
    by blast
  from d show "finals (snd (disconnect ?s)) = [trim (currentOutputText ?s)]"
    by (simp add: finals_release)
next
  show "snd (disconnect (fst (handleMessage listening (output_delta (js ''trailing thought''))))) =
       [Transcription 1 (js ''trailing thought'') True,
        StopTracks, DisconnectProcessor, DisconnectSource, CloseAudioContext]"
    by (simp add: listening_eq eval_defs disconnect_def release_def)
qed

theorem shutdown_flush_witness:
  "isConnected (fst (run new_service
      [Connect 1 2 \<lparr>contextState = Suspended, result = Established\<rparr>, Deliver Open,
       Deliver (Message (output_delta (js ''trailing thought'')))])) \<and>
   trim (currentOutputText (fst (run new_service
      [Connect 1 2 \<lparr>contextState = Suspended, result = Established\<rparr>, Deliver Open,
       Deliver (Message (output_delta (js ''trailing thought'')))]))) \<noteq> [] \<and>
   finals (snd (disconnect (fst (run new_service
      [Connect 1 2 \<lparr>contextState = Suspended, result = Established\<rparr>, Deliver Open,
       Deliver (Message (output_delta (js ''trailing thought'')))])))) = [js ''trailing thought'']"
proof -
  let ?as = "[Connect 1 2 \<lparr>contextState = Suspended, result = Established\<rparr>, Deliver Open,
       Deliver (Message (output_delta (js ''trailing thought'')))]"
  have s: "fst (run new_service ?as) =
     \<lparr>session = True, audioContext = Some Running, mediaStream = True, processor = True,
      source = True, isConnected = True, onTranscription = Some 1, onError = Some 2,
      currentInputText = [], currentOutputText = js ''trailing thought''\<rparr>"
    by (simp add: run_defs eval_defs)
  have h: "isConnected (fst (run new_service ?as)) \<and>
           trim (currentOutputText (fst (run new_service ?as))) \<noteq> []"
    unfolding s by (simp add: trim_def js_def is_ws_def)
  from shutdown_flush [of ?as, THEN conjunct1, THEN mp, OF h, THEN conjunct2]
  have "finals (snd (disconnect (fst (run new_service ?as)))) =
          [trim (currentOutputText (fst (run new_service ?as)))]" .
  also have "trim (currentOutputText (fst (run new_service ?as))) = js ''trailing thought''"
    unfolding s by (simp add: trim_def js_def is_ws_def)
  finally show ?thesis using h by simp
qed

text \<open>
  C7. \<open>disconnect\<close> takes every state to the state of a new service; called on that state
  it changes nothing and has no effect, however many times it is called. \<open>connect\<close>
  called while connected returns the state unchanged, with no effect: no channel is opened.
  The model of either call has no failing branch, as the code has no \<open>throw\<close>.
\<close>

theorem redundant_calls:
  "fst (disconnect s) = new_service \<and>
   disconnect new_service = (new_service, []) \<and>
   run (fst (disconnect s)) (replicate n Disconnect) = (new_service, []) \<and>
   (isConnected s \<longrightarrow> connect s onT onE env = (s, []))"
proof (intro conjI impI)
  show "fst (disconnect s) = new_service" by (rule fst_disconnect)
  show "disconnect new_service = (new_service, [])" by (rule disconnect_new_service)
  have "run new_service (replicate n Disconnect) = (new_service, [])"
    by (induction n) (simp_all add: disconnect_new_service)
  then show "run (fst (disconnect s)) (replicate n Disconnect) = (new_service, [])"
    by (simp add: fst_disconnect)
next
  assume "isConnected s"
  then show "connect s onT onE env = (s, [])" by (simp add: connect_def)
qed

theorem redundant_calls_witness:
  "isConnected listening \<and>
   connect listening 3 4 \<lparr>contextState = Running, result = Established\<rparr> = (listening, []) \<and>
   run (fst (disconnect listening)) (replicate 3 Disconnect) = (new_service, [])"
proof -
  have c: "isConnected listening" by (simp add: listening_eq)
  from redundant_calls [of listening 3 3 4 "\<lparr>contextState = Running, result = Established\<rparr>"] c
  show ?thesis by blast
qed







text \<open>
  C10. Whatever the state and whatever happens to the service (\<open>connect\<close>,
  \<open>disconnect\<close>, messages, transport events), every final segment emitted is neither
  empty nor made of white space only.
\<close>

theorem final_segments_nonblank:
  "\<forall>t \<in> set (finals (snd (run s as))). t \<noteq> [] \<and> (\<exists>c \<in> set t. \<not> is_ws c)"
proof
  fix t assume "t \<in> set (finals (snd (run s as)))"
  with nonblank_finals_run [of s as] have "trim t \<noteq> []" by (simp add: nonblank_finals_def)
  then show "t \<noteq> [] \<and> (\<exists>c \<in> set t. \<not> is_ws c)" by (auto simp: trim_Nil_iff)
qed

theorem final_segments_nonblank_witness:
  "finals (snd (run new_service
      [Connect 1 2 \<lparr>contextState = Running, result = Established\<rparr>, Deliver Open,
       Deliver (Message (output_delta (js ''Hi. there''))),
       Deliver (Message turn_complete_marker),
       Deliver (Message (output_delta (js ''bye''))), Disconnect]))
     = [js ''Hi.'', js ''there'', js ''bye''] \<and>
   js ''Hi.'' \<noteq> [] \<and> (\<exists>c \<in> set (js ''Hi.''). \<not> is_ws c) \<and>
   js ''there'' \<noteq> [] \<and> (\<exists>c \<in> set (js ''there''). \<not> is_ws c) \<and>
   js ''bye'' \<noteq> [] \<and> (\<exists>c \<in> set (js ''bye''). \<not> is_ws c)"
proof -
  let ?as = "[Connect 1 2 \<lparr>contextState = Running, result = Established\<rparr>, Deliver Open,
       Deliver (Message (output_delta (js ''Hi. there''))),
       Deliver (Message turn_complete_marker),
       Deliver (Message (output_delta (js ''bye''))), Disconnect]"
  have f: "finals (snd (run new_service ?as)) = [js ''Hi.'', js ''there'', js ''bye'']"
    by (simp add: run_defs eval_defs)
  from final_segments_nonblank [of new_service ?as]
  have "\<forall>t \<in> set [js ''Hi.'', js ''there'', js ''bye'']. t \<noteq> [] \<and> (\<exists>c \<in> set t. \<not> is_ws c)"
    unfolding f .
  then have "js ''Hi.'' \<noteq> [] \<and> (\<exists>c \<in> set (js ''Hi.''). \<not> is_ws c) \<and>
   js ''there'' \<noteq> [] \<and> (\<exists>c \<in> set (js ''there''). \<not> is_ws c) \<and>
   js ''bye'' \<noteq> [] \<and> (\<exists>c \<in> set (js ''bye''). \<not> is_ws c)"
    by (simp only: list.set ball_simps insert_iff) blast
  with f show ?thesis by (rule conjI)
qed

end
